theory Spec2Isabelle
  imports Main "HOL-Library.Sublist"
begin

section \<open>Data model\<close>

text \<open>
  The generic data tree handed to \<^verbatim>\<open>package_manifest::load\<close> (\<^verbatim>\<open>json5::data\<close>): a tagged
  union of null, boolean, number, string, array and object. An object is kept as the list of
  its entries in stored order. The payload of a number is never read by the loader; it is
  kept as an integer.
\<close>

datatype node =
    JNull
  | JBool bool
  | JNumber int
  | JString string
  | JArray "node list"
  | JObject "(string \<times> node) list"

fun is_object :: "node \<Rightarrow> bool" where
  "is_object (JObject es) = True"
| "is_object _ = False"

fun is_string :: "node \<Rightarrow> bool" where
  "is_string (JString s) = True"
| "is_string _ = False"

fun is_array :: "node \<Rightarrow> bool" where
  "is_array (JArray xs) = True"
| "is_array _ = False"

text \<open>
  \<^verbatim>\<open>dds::dependency\<close>: a name and the version interval built from the low and high bound of
  the parsed range. The version type belongs to the semver library and is a type parameter.
\<close>

record 'v dependency =
  name :: string
  versions :: "'v \<times> 'v"

text \<open>\<^verbatim>\<open>struct meta_dependency\<close> of package.hpp.\<close>

record 'v meta_dependency =
  dep :: "'v dependency"
  cmake_config :: "(string \<times> string) list"

text \<open>\<^verbatim>\<open>struct package_manifest\<close> of package.hpp; every vector starts empty.\<close>

record 'v package_manifest =
  depends :: "'v dependency list"
  test_depends :: "'v dependency list"
  meta_depends :: "'v meta_dependency list"
  meta_test_depends :: "'v meta_dependency list"

definition empty_manifest :: "'v package_manifest" where
  "empty_manifest =
     \<lparr>depends = [], test_depends = [], meta_depends = [], meta_test_depends = []\<rparr>"

section \<open>Errors\<close>

text \<open>
  The \<^verbatim>\<open>dds::errc\<close> enumerators that occur in the loader, and one constructor for any other
  enumerator (by name) that the dependency-string parser of dds may raise.
\<close>

datatype errc =
    invalid_pkg_manifest
  | invalid_version_range_string
  | other_errc string

text \<open>
  What can leave a walk: a \<^verbatim>\<open>semester::walk_error\<close> carrying the message of the rejection
  (the path annotation of the message is not modelled), a \<^verbatim>\<open>dds::user_error\<close> with its
  enumerator and message, the failure of an engine operation that is applied to a node of
  the wrong shape, or the undefined behaviour of reading a reference whose object is gone.
  The last one is kept as a failure of its own: no handler catches it, no manifest comes out
  of it, and nothing is said about a message.
\<close>

datatype exn =
    Walk_error string
  | User_error errc string
  | Engine_precondition
  | Undefined_behaviour

type_synonym 's walker = "node \<Rightarrow> 's \<Rightarrow> exn + 's"

section \<open>External collaborators\<close>

text \<open>
  Three things the loader uses live outside the repository and are parameters of the model:
  \<^item> \<open>parse_restricted\<close>: \<^verbatim>\<open>semver::range::parse_restricted\<close>, returning the low and high
    bound, or \<open>None\<close> where it throws \<^verbatim>\<open>semver::invalid_range\<close>;
  \<^item> \<open>parse_depends_string\<close>: \<^verbatim>\<open>dds::dependency::parse_depends_string\<close>, returning the
    dependency or the exception it throws;
  \<^item> \<open>unhandled_key\<close>: what the walking engine does with an object entry that no handler
    of a \<^verbatim>\<open>mapping\<close> takes, which the specification leaves open: \<open>None\<close> skips the entry,
    \<open>Some msg\<close> rejects with \<open>msg\<close>.
\<close>

record 'v externals =
  parse_restricted :: "string \<Rightarrow> ('v \<times> 'v) option"
  parse_depends_string :: "string \<Rightarrow> exn + 'v dependency"
  unhandled_key :: "string \<Rightarrow> string option"

section \<open>The walking engine\<close>

text \<open>
  Modelled from the spec: the engine (\<^verbatim>\<open>semester/walk.hpp\<close>) is a library outside the
  repository. Its operations follow section 4.1 of the specification: an operation takes the
  current node and the destination under construction and either returns the updated
  destination or fails; a sequence stops at the first failure.
\<close>

text \<open>
  Modelled from the spec: \<^verbatim>\<open>require_type\<close> fails with the given message unless the node has
  the required tag.
\<close>

definition require_obj :: "string \<Rightarrow> 's walker" where
  "require_obj msg dat ret = (if is_object dat then Inr ret else Inl (Walk_error msg))"

definition require_array :: "string \<Rightarrow> 's walker" where
  "require_array msg dat ret = (if is_array dat then Inr ret else Inl (Walk_error msg))"

text \<open>Modelled from the spec: operations in a sequence run in order on the same node.\<close>

fun walk_seq :: "'s walker list \<Rightarrow> 's walker" where
  "walk_seq [] dat ret = Inr ret"
| "walk_seq (w # ws) dat ret =
     (case w dat ret of Inl e \<Rightarrow> Inl e | Inr ret' \<Rightarrow> walk_seq ws dat ret')"

text \<open>
  Modelled from the spec: \<^verbatim>\<open>for_each\<close> requires an array and applies the element sink to
  every element in array order; the first failure aborts.
\<close>

fun for_each_elems :: "'s walker \<Rightarrow> node list \<Rightarrow> 's \<Rightarrow> exn + 's" where
  "for_each_elems h [] ret = Inr ret"
| "for_each_elems h (x # xs) ret =
     (case h x ret of Inl e \<Rightarrow> Inl e | Inr ret' \<Rightarrow> for_each_elems h xs ret')"

definition for_each :: "'s walker \<Rightarrow> 's walker" where
  "for_each h dat ret =
     (case dat of JArray xs \<Rightarrow> for_each_elems h xs ret | _ \<Rightarrow> Inl Engine_precondition)"

text \<open>
  Modelled from the spec: the handlers of a \<^verbatim>\<open>mapping\<close>. \<^verbatim>\<open>if_key\<close> (the optional key of
  the specification) and \<^verbatim>\<open>required_key\<close> take the entries with their key; a plain
  key-value function takes every entry.
\<close>

datatype 's handler =
    If_key string "'s walker"
  | Required_key string string "'s walker"
  | Key_value "string \<Rightarrow> 's walker"

fun try_handlers :: "'s handler list \<Rightarrow> string \<Rightarrow> node \<Rightarrow> 's \<Rightarrow> (exn + 's) option" where
  "try_handlers [] k v ret = None"
| "try_handlers (If_key n w # hs) k v ret =
     (if k = n then Some (w v ret) else try_handlers hs k v ret)"
| "try_handlers (Required_key n msg w # hs) k v ret =
     (if k = n then Some (w v ret) else try_handlers hs k v ret)"
| "try_handlers (Key_value f # hs) k v ret = Some (f k v ret)"

fun walk_entries ::
  "(string \<Rightarrow> string option) \<Rightarrow> 's handler list \<Rightarrow> (string \<times> node) list \<Rightarrow> 's \<Rightarrow> exn + 's"
where
  "walk_entries unk hs [] ret = Inr ret"
| "walk_entries unk hs ((k, v) # es) ret =
     (case try_handlers hs k v ret of
        None \<Rightarrow>
          (case unk k of
             None \<Rightarrow> walk_entries unk hs es ret
           | Some msg \<Rightarrow> Inl (Walk_error msg))
      | Some (Inl e) \<Rightarrow> Inl e
      | Some (Inr ret') \<Rightarrow> walk_entries unk hs es ret')"

text \<open>
  Modelled from the spec: a required key fails with its message when the object lacks the
  key. The check runs once the entries have been walked.
\<close>

fun missing_required :: "'s handler list \<Rightarrow> string list \<Rightarrow> string option" where
  "missing_required [] ks = None"
| "missing_required (Required_key n msg w # hs) ks =
     (if n \<in> set ks then missing_required hs ks else Some msg)"
| "missing_required (h # hs) ks = missing_required hs ks"

definition mapping :: "(string \<Rightarrow> string option) \<Rightarrow> 's handler list \<Rightarrow> 's walker" where
  "mapping unk hs dat ret =
     (case dat of
        JObject es \<Rightarrow>
          (case walk_entries unk hs es ret of
             Inl e \<Rightarrow> Inl e
           | Inr ret' \<Rightarrow>
               (case missing_required hs (map fst es) of
                  None \<Rightarrow> Inr ret'
                | Some msg \<Rightarrow> Inl (Walk_error msg)))
      | _ \<Rightarrow> Inl Engine_precondition)"

text \<open>
  Modelled from the spec: \<^verbatim>\<open>put_into\<close> with a back inserter and a projection converts the
  string of the node and appends the result to the destination.
\<close>

definition put_into :: "('a \<Rightarrow> 's \<Rightarrow> 's) \<Rightarrow> (string \<Rightarrow> exn + 'a) \<Rightarrow> 's walker" where
  "put_into back_inserter project dat ret =
     (case dat of
        JString s \<Rightarrow>
          (case project s of Inl e \<Rightarrow> Inl e | Inr x \<Rightarrow> Inr (back_inserter x ret))
      | _ \<Rightarrow> Inl Engine_precondition)"

section \<open>The manifest schema of \<^verbatim>\<open>package_manifest::load\<close>\<close>

definition quote :: string where
  "quote = [CHR 0x27]"

text \<open>
  The formatted message \<^verbatim>\<open>"Invalid version range string '{}' in dependency declaration for
  '{}'"\<close> with the range string and the key.
\<close>

definition invalid_range_message :: "string \<Rightarrow> string \<Rightarrow> string" where
  "invalid_range_message range_str key =
     ''Invalid version range string '' @ quote @ range_str @ quote
     @ '' in dependency declaration for '' @ quote @ key @ quote"

text \<open>
  The lambda \<^verbatim>\<open>push_depends_obj_kv\<close>: the value must be a string; its range is parsed and the
  dependency is pushed on \<^verbatim>\<open>ret.depends\<close>; a range the grammar refuses raises the user error
  \<^verbatim>\<open>invalid_version_range_string\<close>.
\<close>

definition push_depends_obj_kv ::
  "'v externals \<Rightarrow> string \<Rightarrow> 'v package_manifest walker"
where
  "push_depends_obj_kv X key dat ret =
     (case dat of
        JString s \<Rightarrow>
          (case parse_restricted X s of
             Some rng \<Rightarrow>
               Inr (ret\<lparr>depends := depends ret @ [\<lparr>name = key, versions = rng\<rparr>]\<rparr>)
           | None \<Rightarrow>
               Inl (User_error invalid_version_range_string (invalid_range_message s key)))
      | _ \<Rightarrow> Inl (Walk_error ''Dependency object values should be strings''))"

definition str_to_dependency :: "'v externals \<Rightarrow> string \<Rightarrow> exn + 'v dependency" where
  "str_to_dependency X s = parse_depends_string X s"

text \<open>
  The lambda \<^verbatim>\<open>dependency\<close> (named \<open>dependency_sink\<close> here, next to the record of the same
  name). The destination vector it captures is given as the function that appends to it.

  The last branch formats \<^verbatim>\<open>"`{}' should be an array of strings or objects"\<close> with
  \<^verbatim>\<open>key_name\<close> and rejects with it. But \<^verbatim>\<open>key_name\<close> is a by-value parameter of the outer
  lambda, the inner lambda that is returned captures it by reference, and the inner lambda
  runs after the outer call has returned: the read is undefined behaviour, and the branch is
  modelled as such.
\<close>

definition dependency_sink ::
  "'v externals \<Rightarrow> ('v dependency \<Rightarrow> 'v package_manifest \<Rightarrow> 'v package_manifest) \<Rightarrow> string
     \<Rightarrow> 'v package_manifest walker"
where
  "dependency_sink X back_inserter key_name dat ret =
     (if is_object dat then mapping (unhandled_key X) [Key_value (push_depends_obj_kv X)] dat ret
      else if is_string dat then put_into back_inserter (str_to_dependency X) dat ret
      else Inl Undefined_behaviour)"

text \<open>
  Modelled from the spec: the conversion of a \<^verbatim>\<open>dds::dependency\<close> to a \<^verbatim>\<open>meta_dependency\<close>.
  The string branch of the lambda \<^verbatim>\<open>meta_dependency\<close> puts the dependency that
  \<^verbatim>\<open>str_to_dependency\<close> returns into a vector of \<^verbatim>\<open>meta_dependency\<close>, and no conversion
  between the two types is in the sources. The specification says that a string element
  yields an extended dependency with an empty configuration list.
\<close>

definition to_meta_dependency :: "'v dependency \<Rightarrow> 'v meta_dependency" where
  "to_meta_dependency d = \<lparr>dep = d, cmake_config = []\<rparr>"

text \<open>
  The lambda \<^verbatim>\<open>meta_dependency\<close> (named \<open>meta_dependency_sink\<close>): the same three branches
  as \<^verbatim>\<open>dependency\<close>, with the same read of \<^verbatim>\<open>key_name\<close> in the last one; its destination
  holds \<^verbatim>\<open>meta_dependency\<close> values.
\<close>

definition meta_dependency_sink ::
  "'v externals \<Rightarrow> ('v meta_dependency \<Rightarrow> 'v package_manifest \<Rightarrow> 'v package_manifest) \<Rightarrow> string
     \<Rightarrow> 'v package_manifest walker"
where
  "meta_dependency_sink X back_inserter key_name dat ret =
     (if is_object dat then mapping (unhandled_key X) [Key_value (push_depends_obj_kv X)] dat ret
      else if is_string dat then
        put_into back_inserter
          (\<lambda>s. case str_to_dependency X s of
                  Inl e \<Rightarrow> Inl e
                | Inr d \<Rightarrow> Inr (to_meta_dependency d)) dat ret
      else Inl Undefined_behaviour)"

text \<open>The four destination vectors, as the functions that append to them.\<close>

definition push_depends :: "'v dependency \<Rightarrow> 'v package_manifest \<Rightarrow> 'v package_manifest" where
  "push_depends d ret = ret\<lparr>depends := depends ret @ [d]\<rparr>"

definition push_test_depends ::
  "'v dependency \<Rightarrow> 'v package_manifest \<Rightarrow> 'v package_manifest" where
  "push_test_depends d ret = ret\<lparr>test_depends := test_depends ret @ [d]\<rparr>"

definition push_meta_depends ::
  "'v meta_dependency \<Rightarrow> 'v package_manifest \<Rightarrow> 'v package_manifest" where
  "push_meta_depends d ret = ret\<lparr>meta_depends := meta_depends ret @ [d]\<rparr>"

definition push_meta_test_depends ::
  "'v meta_dependency \<Rightarrow> 'v package_manifest \<Rightarrow> 'v package_manifest" where
  "push_meta_test_depends d ret = ret\<lparr>meta_test_depends := meta_test_depends ret @ [d]\<rparr>"

definition meta_dds_missing :: string where
  "meta_dds_missing =
     ''Do you really need meta-dds? Consider using dds proper. If you need the ''
     @ ''build script, add an empty meta_dds: {} object in your meta_package.json5''"

text \<open>The handlers of the mapping under \<^verbatim>\<open>meta_dds\<close>.\<close>

definition meta_handlers :: "'v externals \<Rightarrow> 'v package_manifest handler list" where
  "meta_handlers X =
     [If_key ''depends''
        (walk_seq
          [require_array ''`meta_dds.depends' should be an array of dependencies'',
           for_each (meta_dependency_sink X push_meta_depends ''meta_dds.depends'')]),
      If_key ''test_depends''
        (walk_seq
          [require_array ''`meta_dds.test_depends' should be an array of dependencies'',
           for_each (meta_dependency_sink X push_meta_test_depends ''meta_dds.test_depends'')])]"

text \<open>The handlers of the mapping at the root.\<close>

definition root_handlers :: "'v externals \<Rightarrow> 'v package_manifest handler list" where
  "root_handlers X =
     [If_key ''depends''
        (walk_seq
          [require_array ''`depends' should be an array of dependencies'',
           for_each (dependency_sink X push_depends ''depends'')]),
      If_key ''test_depends''
        (walk_seq
          [require_array ''`test_depends' should be an array of dependencies'',
           for_each (dependency_sink X push_test_depends ''test_depends'')]),
      Required_key ''meta_dds'' meta_dds_missing
        (mapping (unhandled_key X) (meta_handlers X))]"

text \<open>The call of \<^verbatim>\<open>walk\<close> on the root, started on a destination \<open>ret\<close>.\<close>

definition walk_manifest :: "'v externals \<Rightarrow> 'v package_manifest walker" where
  "walk_manifest X =
     walk_seq
       [require_obj ''Root of package manifest should be a JSON object'',
        mapping (unhandled_key X) (root_handlers X)]"

text \<open>
  The handler \<^verbatim>\<open>catch (const semester::walk_error& e)\<close> of \<^verbatim>\<open>package_manifest::load\<close>: a
  walk error is raised again as the user error \<^verbatim>\<open>invalid_pkg_manifest\<close> with the same
  message; any other exception passes through.
\<close>

fun catch_walk_error :: "exn \<Rightarrow> exn" where
  "catch_walk_error (Walk_error msg) = User_error invalid_pkg_manifest msg"
| "catch_walk_error e = e"

text \<open>\<^verbatim>\<open>package_manifest::load\<close>: the walk starts on a fresh manifest.\<close>

definition load :: "'v externals \<Rightarrow> node \<Rightarrow> exn + 'v package_manifest" where
  "load X data =
     (case walk_manifest X data empty_manifest of
        Inr ret \<Rightarrow> Inr ret
      | Inl e \<Rightarrow> Inl (catch_walk_error e))"

section \<open>A sample of the external collaborators\<close>

text \<open>
  For evaluating the loader on concrete documents, the external parsers are instantiated by a
  small sample: versions are triples of numbers, the range grammar knows the two version
  strings of the scenarios of the specification and refuses every other string, and an
  unhandled key is skipped.
\<close>

type_synonym version = "nat \<times> nat \<times> nat"

definition sample_parse_restricted :: "string \<Rightarrow> (version \<times> version) option" where
  "sample_parse_restricted s =
     (if s = ''1.0.0'' then Some ((1, 0, 0), (2, 0, 0))
      else if s = ''2.0.0'' then Some ((2, 0, 0), (3, 0, 0))
      else None)"

text \<open>
  Modelled from the spec: the combined specifier is \<open>name\<close>, the delimiter \<open>@\<close>, and a range
  expression of the range grammar (section 6 of the specification); the parser itself is part
  of dds.
\<close>

definition sample_parse_depends_string :: "string \<Rightarrow> exn + version dependency" where
  "sample_parse_depends_string s =
     (let nm = takeWhile (\<lambda>c. c \<noteq> CHR ''@'') s;
          rest = dropWhile (\<lambda>c. c \<noteq> CHR ''@'') s
      in if rest = [] then
           Inl (User_error invalid_version_range_string
                 (''Invalid dependency string '' @ quote @ s @ quote))
         else
           (case sample_parse_restricted (tl rest) of
              Some rng \<Rightarrow> Inr \<lparr>name = nm, versions = rng\<rparr>
            | None \<Rightarrow>
                Inl (User_error invalid_version_range_string
                      (''Invalid version range string '' @ quote @ tl rest @ quote
                        @ '' in dependency string '' @ quote @ s @ quote))))"

definition sample :: "version externals" where
  "sample =
     \<lparr>parse_restricted = sample_parse_restricted,
      parse_depends_string = sample_parse_depends_string,
      unhandled_key = (\<lambda>k. None)\<rparr>"

section \<open>Vocabulary for the results of a load\<close>

text \<open>
  The dependencies that the entries of an object element declare (key: name, value: range),
  and the dependency that a string element declares; a part the parsers refuse contributes
  nothing.
\<close>

fun entry_deps :: "'v externals \<Rightarrow> string \<times> node \<Rightarrow> 'v dependency list" where
  "entry_deps X (k, JString s) =
     (case parse_restricted X s of Some rng \<Rightarrow> [\<lparr>name = k, versions = rng\<rparr>] | None \<Rightarrow> [])"
| "entry_deps X (k, v) = []"

fun object_deps :: "'v externals \<Rightarrow> node \<Rightarrow> 'v dependency list" where
  "object_deps X (JObject ents) = concat (map (entry_deps X) ents)"
| "object_deps X x = []"

fun string_deps :: "'v externals \<Rightarrow> node \<Rightarrow> 'v dependency list" where
  "string_deps X (JString s) =
     (case parse_depends_string X s of Inr d \<Rightarrow> [d] | Inl e \<Rightarrow> [])"
| "string_deps X x = []"

text \<open>The entries and elements that the sinks accept.\<close>

fun entry_ok :: "'v externals \<Rightarrow> string \<times> node \<Rightarrow> bool" where
  "entry_ok X (k, JString s) = (parse_restricted X s \<noteq> None)"
| "entry_ok X (k, v) = False"

fun elem_ok :: "'v externals \<Rightarrow> node \<Rightarrow> bool" where
  "elem_ok X (JString s) = (\<exists>d. parse_depends_string X s = Inr d)"
| "elem_ok X (JObject ents) = list_all (entry_ok X) ents"
| "elem_ok X x = False"

text \<open>
  The elements of the arrays stored under a key of an object, in entry order; the elements
  under either dependency key; and the entries of the objects stored under \<^verbatim>\<open>meta_dds\<close>.
\<close>

fun entry_elems :: "string \<Rightarrow> string \<times> node \<Rightarrow> node list" where
  "entry_elems key (k, JArray xs) = (if k = key then xs else [])"
| "entry_elems key (k, v) = []"

definition elems_at :: "string \<Rightarrow> (string \<times> node) list \<Rightarrow> node list" where
  "elems_at key es = concat (map (entry_elems key) es)"

definition dep_elems :: "(string \<times> node) list \<Rightarrow> node list" where
  "dep_elems es =
     concat (map (\<lambda>e. entry_elems ''depends'' e @ entry_elems ''test_depends'' e) es)"

fun entry_members :: "string \<times> node \<Rightarrow> (string \<times> node) list" where
  "entry_members (k, JObject ms) = (if k = ''meta_dds'' then ms else [])"
| "entry_members (k, v) = []"

definition meta_entries :: "(string \<times> node) list \<Rightarrow> (string \<times> node) list" where
  "meta_entries es = concat (map entry_members es)"

section \<open>The engine: composition and first failure\<close>

lemma walk_entries_append:
  "walk_entries unk hs (pre @ post) ret =
     (case walk_entries unk hs pre ret of Inl e \<Rightarrow> Inl e | Inr r \<Rightarrow> walk_entries unk hs post r)"
  by (induction pre arbitrary: ret) (auto split: option.splits sum.splits)

lemma for_each_elems_append:
  "for_each_elems h (pre @ post) ret =
     (case for_each_elems h pre ret of Inl e \<Rightarrow> Inl e | Inr r \<Rightarrow> for_each_elems h post r)"
  by (induction pre arbitrary: ret) (auto split: sum.splits)

lemma walk_entries_reach:
  assumes "walk_entries unk hs pre ret = Inr r" and "try_handlers hs k v r = Some (Inl e)"
  shows "walk_entries unk hs (pre @ (k, v) # post) ret = Inl e"
  using assms by (simp add: walk_entries_append)

lemma for_each_elems_reach:
  assumes "for_each_elems h pre ret = Inr r" and "h x r = Inl e"
  shows "for_each_elems h (pre @ x # post) ret = Inl e"
  using assms by (simp add: for_each_elems_append)

lemma root_missing_required:
  "missing_required (root_handlers X) ks =
     (if ''meta_dds'' \<in> set ks then None else Some meta_dds_missing)"
  by (simp add: root_handlers_def)

lemma meta_missing_required: "missing_required (meta_handlers X) ks = None"
  by (simp add: meta_handlers_def)

text \<open>The load of an object, in terms of the walk over its entries.\<close>

lemma load_object:
  "load X (JObject es) =
     (case walk_entries (unhandled_key X) (root_handlers X) es empty_manifest of
        Inl e \<Rightarrow> Inl (catch_walk_error e)
      | Inr ret \<Rightarrow>
          if ''meta_dds'' \<in> fst ` set es then Inr ret
          else Inl (User_error invalid_pkg_manifest meta_dds_missing))"
  by (simp add: load_def walk_manifest_def require_obj_def mapping_def root_missing_required
      split: sum.splits)

lemma load_non_object:
  "\<not> is_object data \<Longrightarrow>
   load X data =
     Inl (User_error invalid_pkg_manifest ''Root of package manifest should be a JSON object'')"
  by (simp add: load_def walk_manifest_def require_obj_def)

section \<open>What an accepted walk leaves in the manifest\<close>

lemma push_depends_obj_kv_effect:
  assumes "push_depends_obj_kv X k v ret = Inr ret'"
  shows "entry_ok X (k, v) \<and> ret' = ret\<lparr>depends := depends ret @ entry_deps X (k, v)\<rparr>"
  using assms by (cases v) (auto simp: push_depends_obj_kv_def split: option.splits)

lemma push_entries_effect:
  assumes "walk_entries unk [Key_value (push_depends_obj_kv X)] ents ret = Inr ret'"
  shows "list_all (entry_ok X) ents
       \<and> ret' = ret\<lparr>depends := depends ret @ concat (map (entry_deps X) ents)\<rparr>"
  using assms
proof (induction ents arbitrary: ret)
  case Nil
  then show ?case by simp
next
  case (Cons kv ents)
  obtain k v where kv: "kv = (k, v)" by (cases kv)
  from Cons.prems kv obtain r where
    step: "push_depends_obj_kv X k v ret = Inr r" and
    rest: "walk_entries unk [Key_value (push_depends_obj_kv X)] ents r = Inr ret'"
    by (auto split: sum.splits)
  from push_depends_obj_kv_effect [OF step] Cons.IH [OF rest] kv
  show ?case by simp
qed

lemma object_elem_effect:
  assumes "mapping unk [Key_value (push_depends_obj_kv X)] (JObject ents) ret = Inr ret'"
  shows "elem_ok X (JObject ents)
       \<and> ret' = ret\<lparr>depends := depends ret @ object_deps X (JObject ents)\<rparr>"
proof -
  from assms have "walk_entries unk [Key_value (push_depends_obj_kv X)] ents ret = Inr ret'"
    by (simp add: mapping_def split: sum.splits)
  from push_entries_effect [OF this] show ?thesis by simp
qed

lemma dependency_sink_effect:
  assumes "dependency_sink X push key x ret = Inr ret'"
  shows "elem_ok X x
       \<and> ((is_object x \<and> ret' = ret\<lparr>depends := depends ret @ object_deps X x\<rparr>)
          \<or> (\<exists>s d. x = JString s \<and> parse_depends_string X s = Inr d \<and> ret' = push d ret))"
proof (cases x)
  case (JObject ents)
  with assms object_elem_effect [of "unhandled_key X" X ents ret ret'] show ?thesis
    by (simp add: dependency_sink_def)
next
  case (JString s)
  with assms show ?thesis
    by (auto simp: dependency_sink_def put_into_def str_to_dependency_def split: sum.splits)
qed (use assms in \<open>simp_all add: dependency_sink_def\<close>)

lemma meta_dependency_sink_effect:
  assumes "meta_dependency_sink X push key x ret = Inr ret'"
  shows "elem_ok X x
       \<and> ((is_object x \<and> ret' = ret\<lparr>depends := depends ret @ object_deps X x\<rparr>)
          \<or> (\<exists>s d. x = JString s \<and> parse_depends_string X s = Inr d
                \<and> ret' = push (to_meta_dependency d) ret))"
proof (cases x)
  case (JObject ents)
  with assms object_elem_effect [of "unhandled_key X" X ents ret ret'] show ?thesis
    by (simp add: meta_dependency_sink_def)
next
  case (JString s)
  with assms show ?thesis
    by (auto simp: meta_dependency_sink_def put_into_def str_to_dependency_def split: sum.splits)
qed (use assms in \<open>simp_all add: meta_dependency_sink_def\<close>)

lemma depends_elems_effect:
  assumes "for_each_elems (dependency_sink X push_depends key) xs ret = Inr ret'"
  shows "list_all (elem_ok X) xs
       \<and> ret' = ret\<lparr>depends :=
                     depends ret @ concat (map (\<lambda>x. object_deps X x @ string_deps X x) xs)\<rparr>"
  using assms
proof (induction xs arbitrary: ret)
  case Nil
  then show ?case by simp
next
  case (Cons x xs)
  from Cons.prems obtain r where
    step: "dependency_sink X push_depends key x ret = Inr r" and
    rest: "for_each_elems (dependency_sink X push_depends key) xs r = Inr ret'"
    by (auto split: sum.splits)
  from dependency_sink_effect [OF step]
  have ok: "elem_ok X x"
    and r: "r = ret\<lparr>depends := depends ret @ object_deps X x @ string_deps X x\<rparr>"
    by (cases x; auto simp: push_depends_def)+
  from Cons.IH [OF rest] ok r show ?case by simp
qed

lemma test_depends_elems_effect:
  assumes "for_each_elems (dependency_sink X push_test_depends key) xs ret = Inr ret'"
  shows "list_all (elem_ok X) xs
       \<and> ret' = ret\<lparr>depends := depends ret @ concat (map (object_deps X) xs),
                     test_depends := test_depends ret @ concat (map (string_deps X) xs)\<rparr>"
  using assms
proof (induction xs arbitrary: ret)
  case Nil
  then show ?case by simp
next
  case (Cons x xs)
  from Cons.prems obtain r where
    step: "dependency_sink X push_test_depends key x ret = Inr r" and
    rest: "for_each_elems (dependency_sink X push_test_depends key) xs r = Inr ret'"
    by (auto split: sum.splits)
  from dependency_sink_effect [OF step]
  have ok: "elem_ok X x"
    and r: "r = ret\<lparr>depends := depends ret @ object_deps X x,
                     test_depends := test_depends ret @ string_deps X x\<rparr>"
    by (cases x; auto simp: push_test_depends_def)+
  from Cons.IH [OF rest] ok r show ?case by simp
qed

lemma meta_depends_elems_effect:
  assumes "for_each_elems (meta_dependency_sink X push_meta_depends key) xs ret = Inr ret'"
  shows "list_all (elem_ok X) xs
       \<and> ret' = ret\<lparr>depends := depends ret @ concat (map (object_deps X) xs),
                     meta_depends :=
                       meta_depends ret
                       @ map to_meta_dependency (concat (map (string_deps X) xs))\<rparr>"
  using assms
proof (induction xs arbitrary: ret)
  case Nil
  then show ?case by simp
next
  case (Cons x xs)
  from Cons.prems obtain r where
    step: "meta_dependency_sink X push_meta_depends key x ret = Inr r" and
    rest: "for_each_elems (meta_dependency_sink X push_meta_depends key) xs r = Inr ret'"
    by (auto split: sum.splits)
  from meta_dependency_sink_effect [OF step]
  have ok: "elem_ok X x"
    and r: "r = ret\<lparr>depends := depends ret @ object_deps X x,
                     meta_depends :=
                       meta_depends ret @ map to_meta_dependency (string_deps X x)\<rparr>"
    by (cases x; auto simp: push_meta_depends_def)+
  from Cons.IH [OF rest] ok r show ?case by simp
qed

lemma meta_test_depends_elems_effect:
  assumes "for_each_elems (meta_dependency_sink X push_meta_test_depends key) xs ret = Inr ret'"
  shows "list_all (elem_ok X) xs
       \<and> ret' = ret\<lparr>depends := depends ret @ concat (map (object_deps X) xs),
                     meta_test_depends :=
                       meta_test_depends ret
                       @ map to_meta_dependency (concat (map (string_deps X) xs))\<rparr>"
  using assms
proof (induction xs arbitrary: ret)
  case Nil
  then show ?case by simp
next
  case (Cons x xs)
  from Cons.prems obtain r where
    step: "meta_dependency_sink X push_meta_test_depends key x ret = Inr r" and
    rest: "for_each_elems (meta_dependency_sink X push_meta_test_depends key) xs r = Inr ret'"
    by (auto split: sum.splits)
  from meta_dependency_sink_effect [OF step]
  have ok: "elem_ok X x"
    and r: "r = ret\<lparr>depends := depends ret @ object_deps X x,
                     meta_test_depends :=
                       meta_test_depends ret @ map to_meta_dependency (string_deps X x)\<rparr>"
    by (cases x; auto simp: push_meta_test_depends_def)+
  from Cons.IH [OF rest] ok r show ?case by simp
qed

lemma elems_at_iff:
  "x \<in> set (elems_at key es) \<longleftrightarrow> (\<exists>xs. (key, JArray xs) \<in> set es \<and> x \<in> set xs)"
proof (induction es)
  case Nil
  then show ?case by (simp add: elems_at_def)
next
  case (Cons e es)
  obtain k v where e: "e = (k, v)" by (cases e)
  show ?case using Cons.IH e by (cases v) (auto simp: elems_at_def)
qed

lemma dep_elems_set:
  "set (dep_elems es) = set (elems_at ''depends'' es) \<union> set (elems_at ''test_depends'' es)"
  by (induction es) (auto simp: dep_elems_def elems_at_def)

lemma meta_entries_iff:
  "e \<in> set (meta_entries es) \<longleftrightarrow> (\<exists>ms. (''meta_dds'', JObject ms) \<in> set es \<and> e \<in> set ms)"
proof (induction es)
  case Nil
  then show ?case by (simp add: meta_entries_def)
next
  case (Cons a es)
  obtain k v where a: "a = (k, v)" by (cases a)
  show ?case using Cons.IH a by (cases v) (auto simp: meta_entries_def)
qed

lemma require_array_then:
  "walk_seq [require_array msg, w] v ret =
     (if is_array v then w v ret else Inl (Walk_error msg))"
  by (simp add: require_array_def split: sum.splits)

lemma try_root_handlers:
  "try_handlers (root_handlers X) k v ret =
     (if k = ''depends'' then
        Some (if is_array v then for_each (dependency_sink X push_depends ''depends'') v ret
              else Inl (Walk_error ''`depends' should be an array of dependencies''))
      else if k = ''test_depends'' then
        Some (if is_array v then
                for_each (dependency_sink X push_test_depends ''test_depends'') v ret
              else Inl (Walk_error ''`test_depends' should be an array of dependencies''))
      else if k = ''meta_dds'' then Some (mapping (unhandled_key X) (meta_handlers X) v ret)
      else None)"
  by (simp add: root_handlers_def require_array_then del: walk_seq.simps)

lemma try_meta_handlers:
  "try_handlers (meta_handlers X) k v ret =
     (if k = ''depends'' then
        Some (if is_array v then
                for_each (meta_dependency_sink X push_meta_depends ''meta_dds.depends'') v ret
              else Inl (Walk_error ''`meta_dds.depends' should be an array of dependencies''))
      else if k = ''test_depends'' then
        Some (if is_array v then
                for_each
                  (meta_dependency_sink X push_meta_test_depends ''meta_dds.test_depends'') v ret
              else Inl (Walk_error
                         ''`meta_dds.test_depends' should be an array of dependencies''))
      else None)"
  by (simp add: meta_handlers_def require_array_then del: walk_seq.simps)

lemma meta_entry_effect:
  assumes "try_handlers (meta_handlers X) k v ret = Some (Inr ret')"
  shows "list_all (elem_ok X) (entry_elems ''depends'' (k, v) @ entry_elems ''test_depends'' (k, v))
       \<and> ret' = ret\<lparr>depends :=
                      depends ret
                      @ concat (map (object_deps X)
                          (entry_elems ''depends'' (k, v) @ entry_elems ''test_depends'' (k, v))),
                    meta_depends :=
                      meta_depends ret
                      @ map to_meta_dependency
                          (concat (map (string_deps X) (entry_elems ''depends'' (k, v)))),
                    meta_test_depends :=
                      meta_test_depends ret
                      @ map to_meta_dependency
                          (concat (map (string_deps X) (entry_elems ''test_depends'' (k, v))))\<rparr>"
proof -
  from assms have key: "k = ''depends'' \<or> k = ''test_depends''"
    by (auto simp: try_meta_handlers split: if_splits)
  from assms key obtain xs where v: "v = JArray xs"
    by (cases v) (auto simp: try_meta_handlers split: if_splits)
  from key show ?thesis
  proof
    assume k: "k = ''depends''"
    with assms v have
      "for_each_elems (meta_dependency_sink X push_meta_depends ''meta_dds.depends'') xs ret
         = Inr ret'"
      by (simp add: try_meta_handlers for_each_def)
    from meta_depends_elems_effect [OF this] k v show ?thesis by simp
  next
    assume k: "k = ''test_depends''"
    with assms v have
      "for_each_elems
         (meta_dependency_sink X push_meta_test_depends ''meta_dds.test_depends'') xs ret
         = Inr ret'"
      by (simp add: try_meta_handlers for_each_def)
    from meta_test_depends_elems_effect [OF this] k v show ?thesis by simp
  qed
qed

lemma meta_entries_effect:
  assumes "walk_entries unk (meta_handlers X) ms ret = Inr ret'"
  shows "list_all (elem_ok X) (dep_elems ms)
       \<and> ret' = ret\<lparr>depends := depends ret @ concat (map (object_deps X) (dep_elems ms)),
                    meta_depends :=
                      meta_depends ret
                      @ map to_meta_dependency
                          (concat (map (string_deps X) (elems_at ''depends'' ms))),
                    meta_test_depends :=
                      meta_test_depends ret
                      @ map to_meta_dependency
                          (concat (map (string_deps X) (elems_at ''test_depends'' ms)))\<rparr>"
  using assms
proof (induction ms arbitrary: ret)
  case Nil
  then show ?case by (simp add: dep_elems_def elems_at_def)
next
  case (Cons e ms)
  obtain k v where e: "e = (k, v)" by (cases e)
  show ?case
  proof (cases "try_handlers (meta_handlers X) k v ret")
    case None
    then have key: "k \<noteq> ''depends''" "k \<noteq> ''test_depends''"
      by (auto simp: try_meta_handlers split: if_splits)
    then have none: "entry_elems ''depends'' (k, v) = []" "entry_elems ''test_depends'' (k, v) = []"
      by (cases v; simp)+
    from Cons.prems e None have "walk_entries unk (meta_handlers X) ms ret = Inr ret'"
      by (simp split: option.splits)
    from Cons.IH [OF this] e none show ?thesis
      by (simp add: dep_elems_def elems_at_def)
  next
    case (Some res)
    with Cons.prems e obtain r where
      step: "try_handlers (meta_handlers X) k v ret = Some (Inr r)" and
      rest: "walk_entries unk (meta_handlers X) ms r = Inr ret'"
      by (cases res) auto
    from meta_entry_effect [OF step] Cons.IH [OF rest] e show ?thesis
      by (simp add: dep_elems_def elems_at_def)
  qed
qed

lemma root_entry_effect:
  assumes "try_handlers (root_handlers X) k v ret = Some (Inr ret')"
  shows "list_all (elem_ok X)
           (entry_elems ''depends'' (k, v) @ entry_elems ''test_depends'' (k, v)
            @ dep_elems (entry_members (k, v)))"
    and "test_depends ret' =
           test_depends ret @ concat (map (string_deps X) (entry_elems ''test_depends'' (k, v)))"
    and "meta_depends ret' =
           meta_depends ret
           @ map to_meta_dependency
               (concat (map (string_deps X) (elems_at ''depends'' (entry_members (k, v)))))"
    and "meta_test_depends ret' =
           meta_test_depends ret
           @ map to_meta_dependency
               (concat (map (string_deps X) (elems_at ''test_depends'' (entry_members (k, v)))))"
    and "set (depends ret') =
           set (depends ret)
           \<union> (\<Union>x \<in> set (entry_elems ''depends'' (k, v)). set (string_deps X x))
           \<union> (\<Union>x \<in> set (entry_elems ''depends'' (k, v)) \<union> set (entry_elems ''test_depends'' (k, v))
                    \<union> set (dep_elems (entry_members (k, v))). set (object_deps X x))"
proof -
  from assms consider
      (dep) xs where "k = ''depends''" "v = JArray xs"
        "for_each_elems (dependency_sink X push_depends ''depends'') xs ret = Inr ret'"
    | (test) xs where "k = ''test_depends''" "v = JArray xs"
        "for_each_elems (dependency_sink X push_test_depends ''test_depends'') xs ret = Inr ret'"
    | (meta) ms where "k = ''meta_dds''" "v = JObject ms"
        "walk_entries (unhandled_key X) (meta_handlers X) ms ret = Inr ret'"
    by (cases v)
       (auto simp: try_root_handlers for_each_def mapping_def meta_missing_required
             split: if_splits sum.splits)
  then have
    "list_all (elem_ok X)
           (entry_elems ''depends'' (k, v) @ entry_elems ''test_depends'' (k, v)
            @ dep_elems (entry_members (k, v)))
     \<and> test_depends ret' =
           test_depends ret @ concat (map (string_deps X) (entry_elems ''test_depends'' (k, v)))
     \<and> meta_depends ret' =
           meta_depends ret
           @ map to_meta_dependency
               (concat (map (string_deps X) (elems_at ''depends'' (entry_members (k, v)))))
     \<and> meta_test_depends ret' =
           meta_test_depends ret
           @ map to_meta_dependency
               (concat (map (string_deps X) (elems_at ''test_depends'' (entry_members (k, v)))))
     \<and> set (depends ret') =
           set (depends ret)
           \<union> (\<Union>x \<in> set (entry_elems ''depends'' (k, v)). set (string_deps X x))
           \<union> (\<Union>x \<in> set (entry_elems ''depends'' (k, v)) \<union> set (entry_elems ''test_depends'' (k, v))
                    \<union> set (dep_elems (entry_members (k, v))). set (object_deps X x))"
  proof cases
    case dep
    from depends_elems_effect [OF dep(3)] dep(1,2) show ?thesis
      by (auto simp: dep_elems_def elems_at_def)
  next
    case test
    from test_depends_elems_effect [OF test(3)] test(1,2) show ?thesis
      by (auto simp: dep_elems_def elems_at_def)
  next
    case meta
    from meta_entries_effect [OF meta(3)] meta(1,2) show ?thesis
      by (auto simp: elems_at_def)
  qed
  then show
    "list_all (elem_ok X)
           (entry_elems ''depends'' (k, v) @ entry_elems ''test_depends'' (k, v)
            @ dep_elems (entry_members (k, v)))"
    and "test_depends ret' =
           test_depends ret @ concat (map (string_deps X) (entry_elems ''test_depends'' (k, v)))"
    and "meta_depends ret' =
           meta_depends ret
           @ map to_meta_dependency
               (concat (map (string_deps X) (elems_at ''depends'' (entry_members (k, v)))))"
    and "meta_test_depends ret' =
           meta_test_depends ret
           @ map to_meta_dependency
               (concat (map (string_deps X) (elems_at ''test_depends'' (entry_members (k, v)))))"
    and "set (depends ret') =
           set (depends ret)
           \<union> (\<Union>x \<in> set (entry_elems ''depends'' (k, v)). set (string_deps X x))
           \<union> (\<Union>x \<in> set (entry_elems ''depends'' (k, v)) \<union> set (entry_elems ''test_depends'' (k, v))
                    \<union> set (dep_elems (entry_members (k, v))). set (object_deps X x))"
    by blast+
qed

lemma root_entry_skipped:
  assumes "try_handlers (root_handlers X) k v ret = None"
  shows "entry_elems ''depends'' (k, v) = []" and "entry_elems ''test_depends'' (k, v) = []"
    and "entry_members (k, v) = []"
proof -
  from assms have "k \<noteq> ''depends''" "k \<noteq> ''test_depends''" "k \<noteq> ''meta_dds''"
    by (auto simp: try_root_handlers split: if_splits)
  then show "entry_elems ''depends'' (k, v) = []" and "entry_elems ''test_depends'' (k, v) = []"
    and "entry_members (k, v) = []"
    by (cases v; simp)+
qed

lemma root_entries_effect:
  assumes "walk_entries unk (root_handlers X) es ret = Inr ret'"
  shows "list_all (elem_ok X) (dep_elems es @ dep_elems (meta_entries es))
       \<and> test_depends ret' =
           test_depends ret @ concat (map (string_deps X) (elems_at ''test_depends'' es))
       \<and> meta_depends ret' =
           meta_depends ret
           @ map to_meta_dependency
               (concat (map (string_deps X) (elems_at ''depends'' (meta_entries es))))
       \<and> meta_test_depends ret' =
           meta_test_depends ret
           @ map to_meta_dependency
               (concat (map (string_deps X) (elems_at ''test_depends'' (meta_entries es))))
       \<and> set (depends ret') =
           set (depends ret)
           \<union> (\<Union>x \<in> set (elems_at ''depends'' es). set (string_deps X x))
           \<union> (\<Union>x \<in> set (dep_elems es) \<union> set (dep_elems (meta_entries es)).
                 set (object_deps X x))"
  using assms
proof (induction es arbitrary: ret)
  case Nil
  then show ?case by (simp add: dep_elems_def elems_at_def meta_entries_def)
next
  case (Cons e es)
  obtain k v where e: "e = (k, v)" by (cases e)
  show ?case
  proof (cases "try_handlers (root_handlers X) k v ret")
    case None
    with Cons.prems e have "walk_entries unk (root_handlers X) es ret = Inr ret'"
      by (simp split: option.splits)
    from Cons.IH [OF this] root_entry_skipped [OF None] e show ?thesis
      by (simp add: dep_elems_def elems_at_def meta_entries_def)
  next
    case (Some res)
    with Cons.prems e obtain r where
      step: "try_handlers (root_handlers X) k v ret = Some (Inr r)" and
      rest: "walk_entries unk (root_handlers X) es r = Inr ret'"
      by (cases res) auto
    have split_dep: "dep_elems (a @ b) = dep_elems a @ dep_elems b" for a b :: "(string \<times> node) list"
      by (simp add: dep_elems_def)
    have split_at: "elems_at key (a @ b) = elems_at key a @ elems_at key b"
      for key and a b :: "(string \<times> node) list"
      by (simp add: elems_at_def)
    have cons_dep: "dep_elems (e # es) =
        entry_elems ''depends'' (k, v) @ entry_elems ''test_depends'' (k, v) @ dep_elems es"
      using e by (simp add: dep_elems_def)
    have cons_at: "elems_at key (e # es) = entry_elems key (k, v) @ elems_at key es" for key
      using e by (simp add: elems_at_def)
    have cons_meta: "meta_entries (e # es) = entry_members (k, v) @ meta_entries es"
      using e by (simp add: meta_entries_def)
    note eff = root_entry_effect [OF step]
    note ih = Cons.IH [OF rest]
    have ok: "list_all (elem_ok X) (dep_elems (e # es) @ dep_elems (meta_entries (e # es)))"
      using eff(1) ih by (simp add: cons_dep cons_meta split_dep)
    have t: "test_depends ret' =
           test_depends ret @ concat (map (string_deps X) (elems_at ''test_depends'' (e # es)))"
      using eff(2) ih by (simp add: cons_at)
    have m: "meta_depends ret' =
           meta_depends ret
           @ map to_meta_dependency
               (concat (map (string_deps X) (elems_at ''depends'' (meta_entries (e # es)))))"
      using eff(3) ih by (simp add: cons_meta split_at)
    have mt: "meta_test_depends ret' =
           meta_test_depends ret
           @ map to_meta_dependency
               (concat (map (string_deps X) (elems_at ''test_depends'' (meta_entries (e # es)))))"
      using eff(4) ih by (simp add: cons_meta split_at)
    have d: "set (depends ret') =
           set (depends ret)
           \<union> (\<Union>x \<in> set (elems_at ''depends'' (e # es)). set (string_deps X x))
           \<union> (\<Union>x \<in> set (dep_elems (e # es)) \<union> set (dep_elems (meta_entries (e # es))).
                 set (object_deps X x))"
    proof -
      from ih have "set (depends ret') =
           set (depends r)
           \<union> (\<Union>x \<in> set (elems_at ''depends'' es). set (string_deps X x))
           \<union> (\<Union>x \<in> set (dep_elems es) \<union> set (dep_elems (meta_entries es)).
                 set (object_deps X x))" by blast
      with eff(5) show ?thesis
        by (simp add: cons_dep cons_at cons_meta split_dep) blast
    qed
    from ok t m mt d show ?thesis by blast
  qed
qed

text \<open>The manifest that a successful load returns.\<close>

lemma load_effect:
  assumes "load X (JObject es) = Inr m"
  shows "list_all (elem_ok X) (dep_elems es @ dep_elems (meta_entries es))"
    and "test_depends m = concat (map (string_deps X) (elems_at ''test_depends'' es))"
    and "meta_depends m =
           map to_meta_dependency
             (concat (map (string_deps X) (elems_at ''depends'' (meta_entries es))))"
    and "meta_test_depends m =
           map to_meta_dependency
             (concat (map (string_deps X) (elems_at ''test_depends'' (meta_entries es))))"
    and "set (depends m) =
           (\<Union>x \<in> set (elems_at ''depends'' es). set (string_deps X x))
           \<union> (\<Union>x \<in> set (dep_elems es) \<union> set (dep_elems (meta_entries es)).
                 set (object_deps X x))"
proof -
  from assms have
    "walk_entries (unhandled_key X) (root_handlers X) es empty_manifest = Inr m"
    by (simp add: load_object split: sum.splits if_splits)
  from root_entries_effect [OF this]
  show "list_all (elem_ok X) (dep_elems es @ dep_elems (meta_entries es))"
    and "test_depends m = concat (map (string_deps X) (elems_at ''test_depends'' es))"
    and "meta_depends m =
           map to_meta_dependency
             (concat (map (string_deps X) (elems_at ''depends'' (meta_entries es))))"
    and "meta_test_depends m =
           map to_meta_dependency
             (concat (map (string_deps X) (elems_at ''test_depends'' (meta_entries es))))"
    and "set (depends m) =
           (\<Union>x \<in> set (elems_at ''depends'' es). set (string_deps X x))
           \<union> (\<Union>x \<in> set (dep_elems es) \<union> set (dep_elems (meta_entries es)).
                 set (object_deps X x))"
    by (simp_all add: empty_manifest_def)
qed



lemma entry_ok_deps:
  assumes "entry_ok X (k, v)"
  shows "\<exists>s rng. v = JString s \<and> parse_restricted X s = Some rng
           \<and> entry_deps X (k, v) = [\<lparr>name = k, versions = rng\<rparr>]"
  using assms by (cases v) auto

lemma object_elem_ok_deps:
  assumes "elem_ok X (JObject ents)" and "(k, v) \<in> set ents"
  shows "\<exists>s rng. v = JString s \<and> parse_restricted X s = Some rng
           \<and> \<lparr>name = k, versions = rng\<rparr> \<in> set (object_deps X (JObject ents))"
proof -
  from assms have "entry_ok X (k, v)" by (auto simp: list_all_iff)
  from entry_ok_deps [OF this] obtain s rng where
    "v = JString s" "parse_restricted X s = Some rng" and
    ed: "entry_deps X (k, v) = [\<lparr>name = k, versions = rng\<rparr>]" by blast
  from ed have "\<lparr>name = k, versions = rng\<rparr> \<in> set (entry_deps X (k, v))" by simp
  with assms(2) have "\<lparr>name = k, versions = rng\<rparr> \<in> set (object_deps X (JObject ents))"
    by (simp del: entry_deps.simps) blast
  with \<open>v = JString s\<close> \<open>parse_restricted X s = Some rng\<close> show ?thesis by blast
qed

section \<open>The first failure of a walk\<close>

lemma root_reach:
  assumes "walk_entries (unhandled_key X) (root_handlers X) pre empty_manifest = Inr r"
    and "try_handlers (root_handlers X) key v r = Some (Inl e)"
  shows "load X (JObject (pre @ (key, v) # post)) = Inl (catch_walk_error e)"
  using walk_entries_reach [OF assms] by (simp add: load_object)

lemma meta_reach:
  assumes "walk_entries (unhandled_key X) (root_handlers X) pre empty_manifest = Inr r"
    and "walk_entries (unhandled_key X) (meta_handlers X) mpre r = Inr r1"
    and "try_handlers (meta_handlers X) key v r1 = Some (Inl e)"
  shows "load X (JObject (pre @ (''meta_dds'', JObject (mpre @ (key, v) # mpost)) # post))
           = Inl (catch_walk_error e)"
proof -
  from walk_entries_reach [OF assms(2,3)]
  have "try_handlers (root_handlers X) ''meta_dds'' (JObject (mpre @ (key, v) # mpost)) r
          = Some (Inl e)"
    by (simp add: try_root_handlers mapping_def)
  from root_reach [OF assms(1) this] show ?thesis .
qed

lemma root_array_prefix:
  assumes "try_handlers (root_handlers X) key (JArray xs1) r = Some (Inr r2)"
  shows "key \<in> {''depends'', ''test_depends''}"
    and "try_handlers (root_handlers X) key (JArray (xs1 @ ys)) r
           = try_handlers (root_handlers X) key (JArray ys) r2"
  using assms
  by (auto simp: try_root_handlers for_each_def for_each_elems_append mapping_def
        split: if_splits)

lemma meta_array_prefix:
  assumes "try_handlers (meta_handlers X) key (JArray xs1) r = Some (Inr r2)"
  shows "key \<in> {''depends'', ''test_depends''}"
    and "try_handlers (meta_handlers X) key (JArray (xs1 @ ys)) r
           = try_handlers (meta_handlers X) key (JArray ys) r2"
  using assms
  by (auto simp: try_meta_handlers for_each_def for_each_elems_append split: if_splits)

lemma root_head_fails:
  assumes "key \<in> {''depends'', ''test_depends''}"
    and "\<And>push kn. dependency_sink X push kn x r = Inl (e kn)"
  shows "try_handlers (root_handlers X) key (JArray (x # xs)) r = Some (Inl (e key))"
  using assms by (auto simp: try_root_handlers for_each_def)

lemma meta_head_fails:
  assumes "key \<in> {''depends'', ''test_depends''}"
    and "\<And>push kn. meta_dependency_sink X push kn x r = Inl (e kn)"
  shows "try_handlers (meta_handlers X) key (JArray (x # xs)) r
           = Some (Inl (e (''meta_dds.'' @ key)))"
  using assms by (auto simp: try_meta_handlers for_each_def)




lemma sink_object_accepted:
  assumes "list_all (entry_ok X) ents"
  shows "walk_entries unk [Key_value (push_depends_obj_kv X)] ents r
           = Inr (r\<lparr>depends := depends r @ concat (map (entry_deps X) ents)\<rparr>)"
  using assms
proof (induction ents arbitrary: r)
  case Nil
  then show ?case by simp
next
  case (Cons kv ents)
  obtain k v where kv: "kv = (k, v)" by (cases kv)
  with Cons.prems have "entry_ok X (k, v)" by simp
  from entry_ok_deps [OF this] obtain s rng where
    v: "v = JString s" "parse_restricted X s = Some rng" by blast
  from Cons.prems have "list_all (entry_ok X) ents" by simp
  from Cons.IH [OF this] kv v show ?case
    by (simp add: push_depends_obj_kv_def)
qed

lemma entry_deps_length:
  "list_all (entry_ok X) ents \<Longrightarrow> length (concat (map (entry_deps X) ents)) = length ents"
proof (induction ents)
  case Nil
  then show ?case by simp
next
  case (Cons kv ents)
  obtain k v where kv: "kv = (k, v)" by (cases kv)
  with Cons.prems have "entry_ok X (k, v)" by simp
  from entry_ok_deps [OF this] Cons kv show ?case by auto
qed

lemma meta_entries_arrays:
  assumes "walk_entries unk (meta_handlers X) ms ret = Inr ret'"
    and "(k, v) \<in> set ms" and "k \<in> {''depends'', ''test_depends''}"
  shows "is_array v"
  using assms
proof (induction ms arbitrary: ret)
  case Nil
  then show ?case by simp
next
  case (Cons e ms)
  obtain k' v' where e: "e = (k', v')" by (cases e)
  from Cons.prems(1) e obtain r where
    rest: "walk_entries unk (meta_handlers X) ms r = Inr ret'"
    by (auto split: option.splits sum.splits)
  show ?case
  proof (cases "(k, v) = e")
    case True
    with Cons.prems(1,3) e show ?thesis
      by (auto simp: try_meta_handlers split: if_splits)
  next
    case False
    with Cons.prems(2) have "(k, v) \<in> set ms" by simp
    from Cons.IH [OF rest this Cons.prems(3)] show ?thesis .
  qed
qed

lemma root_entries_arrays:
  assumes "walk_entries (unhandled_key X) (root_handlers X) es ret = Inr ret'"
    and "k \<in> {''depends'', ''test_depends''}"
    and "(k, v) \<in> set es \<or> (\<exists>ms. (''meta_dds'', JObject ms) \<in> set es \<and> (k, v) \<in> set ms)"
  shows "is_array v"
  using assms
proof (induction es arbitrary: ret)
  case Nil
  then show ?case by simp
next
  case (Cons e es)
  obtain k' v' where e: "e = (k', v')" by (cases e)
  from Cons.prems(1) e obtain r where
    rest: "walk_entries (unhandled_key X) (root_handlers X) es r = Inr ret'"
    by (auto split: option.splits sum.splits)
  show ?case
  proof (cases "(k, v) = e \<or> (\<exists>ms. e = (''meta_dds'', JObject ms) \<and> (k, v) \<in> set ms)")
    case True
    then show ?thesis
    proof
      assume "(k, v) = e"
      with Cons.prems(1,2) e show ?thesis
        by (auto simp: try_root_handlers split: if_splits)
    next
      assume "\<exists>ms. e = (''meta_dds'', JObject ms) \<and> (k, v) \<in> set ms"
      then obtain ms where ms: "e = (''meta_dds'', JObject ms)" "(k, v) \<in> set ms" by blast
      with Cons.prems(1) obtain r' where
        "walk_entries (unhandled_key X) (meta_handlers X) ms ret = Inr r'"
        by (auto simp: try_root_handlers mapping_def split: sum.splits)
      from meta_entries_arrays [OF this ms(2) Cons.prems(2)] show ?thesis .
    qed
  next
    case False
    with Cons.prems(3) have
      "(k, v) \<in> set es \<or> (\<exists>ms. (''meta_dds'', JObject ms) \<in> set es \<and> (k, v) \<in> set ms)"
      by auto
    from Cons.IH [OF rest Cons.prems(2) this] show ?thesis .
  qed
qed

lemma load_fails_or_walks:
  "(\<exists>e. load X (JObject es) = Inl e)
   \<or> (\<exists>m. load X (JObject es) = Inr m
          \<and> walk_entries (unhandled_key X) (root_handlers X) es empty_manifest = Inr m)"
  by (cases "walk_entries (unhandled_key X) (root_handlers X) es empty_manifest")
     (auto simp: load_object)

lemma load_elems_ok:
  assumes "load X (JObject es) = Inr m"
    and "key \<in> {''depends'', ''test_depends''}"
    and "(key, JArray xs) \<in> set es
         \<or> (\<exists>ms. (''meta_dds'', JObject ms) \<in> set es \<and> (key, JArray xs) \<in> set ms)"
    and "x \<in> set xs"
  shows "elem_ok X x"
proof -
  from assms(3,4) have
    "x \<in> set (elems_at key es) \<or> x \<in> set (elems_at key (meta_entries es))"
    by (auto simp: elems_at_iff meta_entries_iff)
  with assms(2) have "x \<in> set (dep_elems es) \<union> set (dep_elems (meta_entries es))"
    by (auto simp: dep_elems_set)
  moreover from load_effect(1) [OF assms(1)]
  have "\<forall>x \<in> set (dep_elems es) \<union> set (dep_elems (meta_entries es)). elem_ok X x"
    by (simp add: list_all_iff ball_Un)
  ultimately show ?thesis by blast
qed



lemma push_entries_bad_value:
  assumes "walk_entries unk [Key_value (push_depends_obj_kv X)] ents1 r = Inr r'"
    and "\<not> is_string v"
  shows "walk_entries unk [Key_value (push_depends_obj_kv X)] (ents1 @ (k, v) # ents2) r
           = Inl (Walk_error ''Dependency object values should be strings'')"
  using assms by (cases v) (simp_all add: walk_entries_append push_depends_obj_kv_def)

lemma sink_bad_value:
  assumes "walk_entries (unhandled_key X) [Key_value (push_depends_obj_kv X)] ents1 r = Inr r'"
    and "\<not> is_string v"
  shows "dependency_sink X push kn (JObject (ents1 @ (k, v) # ents2)) r
           = Inl (Walk_error ''Dependency object values should be strings'')"
    and "meta_dependency_sink X push' kn (JObject (ents1 @ (k, v) # ents2)) r
           = Inl (Walk_error ''Dependency object values should be strings'')"
  using push_entries_bad_value [OF assms]
  by (simp_all add: dependency_sink_def meta_dependency_sink_def mapping_def)

lemma load_string_elem:
  assumes "load X (JObject es) = Inr m"
    and "key \<in> {''depends'', ''test_depends''}"
    and "(''meta_dds'', JObject ms) \<in> set es" and "(key, JArray xs) \<in> set ms"
    and "JString s \<in> set xs"
  shows "\<exists>d. parse_depends_string X s = Inr d
           \<and> d \<in> set (concat (map (string_deps X) (elems_at key (meta_entries es))))"
proof -
  from assms(3,4,5) have mem: "JString s \<in> set (elems_at key (meta_entries es))"
    by (auto simp: elems_at_iff meta_entries_iff)
  from load_elems_ok [OF assms(1,2), of xs "JString s"] assms(3,4,5)
  have "elem_ok X (JString s)" by blast
  then obtain d where d: "parse_depends_string X s = Inr d" by auto
  then have "d \<in> set (string_deps X (JString s))" by simp
  with mem d show ?thesis by (simp del: string_deps.simps) blast
qed

section \<open>The required key \<^verbatim>\<open>meta_dds\<close>\<close>

text \<open>
  The error kinds of the specification and the exceptions of the code: a rejection of the walk
  (the specification's SchemaViolation and MissingRequiredKey) is the user error
  \<^verbatim>\<open>invalid_pkg_manifest\<close> with the message of the rejection; InvalidVersionRangeString is the
  user error \<^verbatim>\<open>invalid_version_range_string\<close>.
\<close>




section \<open>Where the dependencies of a document end up\<close>



text \<open>
  Claim C2: for the document \<^verbatim>\<open>{"meta_dds": {"depends": [{"b": "2.0.0"}]}}\<close> the specification
  expects one entry for \<^verbatim>\<open>b\<close> in \<^verbatim>\<open>meta_depends\<close> and an empty root \<^verbatim>\<open>depends\<close>. The loader
  returns the opposite: \<^verbatim>\<open>b\<close> is in the root \<^verbatim>\<open>depends\<close> and \<^verbatim>\<open>meta_depends\<close> is empty.
\<close>

theorem meta_dds_object_form_scenario:
  "load sample
     (JObject [(''meta_dds'', JObject [(''depends'', JArray [JObject [(''b'', JString ''2.0.0'')]])])])
   = Inr \<lparr>depends = [\<lparr>name = ''b'', versions = ((2, 0, 0), (3, 0, 0))\<rparr>],
          test_depends = [], meta_depends = [], meta_test_depends = []\<rparr>"
  by code_simp

text \<open>
  Claim C3: the object spelling and the string spelling of a dependency should give the same
  dependency in the same destination list. Under \<^verbatim>\<open>test_depends\<close> the object spelling
  \<^verbatim>\<open>{"foo": "1.0.0"}\<close> is appended to the root \<^verbatim>\<open>depends\<close>, and the string spelling
  \<^verbatim>\<open>"foo@1.0.0"\<close> of the same name and range is appended to \<^verbatim>\<open>test_depends\<close>.
\<close>

theorem object_and_string_spelling_destinations:
  "load sample
     (JObject
       [(''meta_dds'', JObject []),
        (''test_depends'', JArray [JObject [(''foo'', JString ''1.0.0'')]])])
   = Inr \<lparr>depends = [\<lparr>name = ''foo'', versions = ((1, 0, 0), (2, 0, 0))\<rparr>],
          test_depends = [], meta_depends = [], meta_test_depends = []\<rparr>
   \<and> load sample
       (JObject
         [(''meta_dds'', JObject []),
          (''test_depends'', JArray [JString ''foo@1.0.0''])])
     = Inr \<lparr>depends = [],
            test_depends = [\<lparr>name = ''foo'', versions = ((1, 0, 0), (2, 0, 0))\<rparr>],
            meta_depends = [], meta_test_depends = []\<rparr>"
  by code_simp

text \<open>
  Claim C8: a document with \<^verbatim>\<open>meta_dds\<close> and without the root keys \<^verbatim>\<open>depends\<close> and
  \<^verbatim>\<open>test_depends\<close> should load with both root sequences empty. For
  \<^verbatim>\<open>{"meta_dds": {"test_depends": [{"c": "1.0.0"}]}}\<close> the root \<^verbatim>\<open>depends\<close> of the loaded
  manifest holds \<^verbatim>\<open>c\<close>.
\<close>

theorem root_depends_omitted_not_empty:
  "load sample
     (JObject
       [(''meta_dds'', JObject [(''test_depends'', JArray [JObject [(''c'', JString ''1.0.0'')]])])])
   = Inr \<lparr>depends = [\<lparr>name = ''c'', versions = ((1, 0, 0), (2, 0, 0))\<rparr>],
          test_depends = [], meta_depends = [], meta_test_depends = []\<rparr>"
  by code_simp

section \<open>Configuration pairs of a meta dependency\<close>

text \<open>
  Claim C4, as stated: an object element under \<^verbatim>\<open>meta_dds.depends\<close> gives an extended
  dependency, one reserved entry being its specifier and every other entry one of its
  configuration pairs. This fails: for the element \<^verbatim>\<open>{"a": "1.0.0", "b": "2.0.0"}\<close> the load
  succeeds, both entries are read as a dependency name with its range, and no configuration
  pair is in the manifest.
\<close>

theorem cmake_config_counterexample:
  "load sample
     (JObject
       [(''meta_dds'',
           JObject
             [(''depends'',
                 JArray [JObject [(''a'', JString ''1.0.0''), (''b'', JString ''2.0.0'')]])])])
   = Inr \<lparr>depends =
            [\<lparr>name = ''a'', versions = ((1, 0, 0), (2, 0, 0))\<rparr>,
             \<lparr>name = ''b'', versions = ((2, 0, 0), (3, 0, 0))\<rparr>],
          test_depends = [], meta_depends = [], meta_test_depends = []\<rparr>"
  by code_simp

text \<open>
  Claim C4, amended: in a document that loads, every entry of an object element under
  \<^verbatim>\<open>meta_dds.depends\<close> or \<^verbatim>\<open>meta_dds.test_depends\<close> is read as a dependency name with a range
  string (its value is a string that the range grammar accepts): no entry is a reserved
  specifier, none is collected as a configuration pair, and every extended dependency of the
  manifest has an empty configuration list; a string element yields an extended dependency
  with an empty configuration list. The statement says nothing about the list in which the
  dependencies of an object element end up.
\<close>

theorem no_configuration_pairs:
  assumes "load X (JObject es) = Inr m"
  shows "(\<forall>e \<in> set (meta_depends m) \<union> set (meta_test_depends m). cmake_config e = [])
       \<and> (\<forall>key ms xs ents k v.
            key \<in> {''depends'', ''test_depends''}
            \<and> (''meta_dds'', JObject ms) \<in> set es \<and> (key, JArray xs) \<in> set ms
            \<and> JObject ents \<in> set xs \<and> (k, v) \<in> set ents
            \<longrightarrow> (\<exists>s rng. v = JString s \<and> parse_restricted X s = Some rng))
       \<and> (\<forall>ms xs s.
            (''meta_dds'', JObject ms) \<in> set es \<and> (''depends'', JArray xs) \<in> set ms
            \<and> JString s \<in> set xs
            \<longrightarrow> (\<exists>d. parse_depends_string X s = Inr d
                   \<and> \<lparr>dep = d, cmake_config = []\<rparr> \<in> set (meta_depends m)))
       \<and> (\<forall>ms xs s.
            (''meta_dds'', JObject ms) \<in> set es \<and> (''test_depends'', JArray xs) \<in> set ms
            \<and> JString s \<in> set xs
            \<longrightarrow> (\<exists>d. parse_depends_string X s = Inr d
                   \<and> \<lparr>dep = d, cmake_config = []\<rparr> \<in> set (meta_test_depends m)))"
proof (intro conjI ballI allI impI)
  note eff = load_effect [OF assms]
  fix e assume "e \<in> set (meta_depends m) \<union> set (meta_test_depends m)"
  with eff(3,4) show "cmake_config e = []"
    by (auto simp: to_meta_dependency_def)
next
  fix key ms xs ents k v
  assume h: "key \<in> {''depends'', ''test_depends''}
            \<and> (''meta_dds'', JObject ms) \<in> set es \<and> (key, JArray xs) \<in> set ms
            \<and> JObject ents \<in> set xs \<and> (k, v) \<in> set ents"
  from load_elems_ok [OF assms, of key xs "JObject ents"] h
  have "elem_ok X (JObject ents)" by blast
  from object_elem_ok_deps [OF this, of k v] h
  show "\<exists>s rng. v = JString s \<and> parse_restricted X s = Some rng" by blast
next
  note eff = load_effect [OF assms]
  fix ms xs s
  assume h: "(''meta_dds'', JObject ms) \<in> set es \<and> (''depends'', JArray xs) \<in> set ms
            \<and> JString s \<in> set xs"
  from load_string_elem [OF assms, of "''depends''" ms xs s] h obtain d where
    d: "parse_depends_string X s = Inr d"
    and "d \<in> set (concat (map (string_deps X) (elems_at ''depends'' (meta_entries es))))"
    by auto
  then have "to_meta_dependency d \<in> set (meta_depends m)"
    unfolding eff(3) by (simp only: set_map) (rule imageI)
  with d show "\<exists>d. parse_depends_string X s = Inr d
                   \<and> \<lparr>dep = d, cmake_config = []\<rparr> \<in> set (meta_depends m)"
    by (auto simp: to_meta_dependency_def)
next
  note eff = load_effect [OF assms]
  fix ms xs s
  assume h: "(''meta_dds'', JObject ms) \<in> set es \<and> (''test_depends'', JArray xs) \<in> set ms
            \<and> JString s \<in> set xs"
  from load_string_elem [OF assms, of "''test_depends''" ms xs s] h obtain d where
    d: "parse_depends_string X s = Inr d"
    and "d \<in> set (concat (map (string_deps X) (elems_at ''test_depends'' (meta_entries es))))"
    by auto
  then have "to_meta_dependency d \<in> set (meta_test_depends m)"
    unfolding eff(4) by (simp only: set_map) (rule imageI)
  with d show "\<exists>d. parse_depends_string X s = Inr d
                   \<and> \<lparr>dep = d, cmake_config = []\<rparr> \<in> set (meta_test_depends m)"
    by (auto simp: to_meta_dependency_def)
qed

theorem no_configuration_pairs_witness:
  "load sample
     (JObject
       [(''meta_dds'',
           JObject
             [(''depends'',
                 JArray [JString ''c@1.0.0'',
                         JObject [(''a'', JString ''1.0.0''), (''b'', JString ''2.0.0'')]])])])
   = Inr \<lparr>depends =
            [\<lparr>name = ''a'', versions = ((1, 0, 0), (2, 0, 0))\<rparr>,
             \<lparr>name = ''b'', versions = ((2, 0, 0), (3, 0, 0))\<rparr>],
          test_depends = [],
          meta_depends =
            [\<lparr>dep = \<lparr>name = ''c'', versions = ((1, 0, 0), (2, 0, 0))\<rparr>, cmake_config = []\<rparr>],
          meta_test_depends = []\<rparr>
   \<and> (\<exists>d. parse_depends_string sample ''c@1.0.0'' = Inr d
          \<and> \<lparr>dep = d, cmake_config = []\<rparr>
              \<in> set [\<lparr>dep = \<lparr>name = ''c'', versions = ((1, 0, 0), (2, 0, 0))\<rparr>,
                      cmake_config = []\<rparr>])
   \<and> (\<exists>s rng. JString ''2.0.0'' = JString s \<and> parse_restricted sample s = Some rng)"
proof -
  let ?obj = "[(''a'', JString ''1.0.0''), (''b'', JString ''2.0.0'')]"
  let ?xs = "[JString ''c@1.0.0'', JObject ?obj]"
  let ?ms = "[(''depends'', JArray ?xs)]"
  let ?es = "[(''meta_dds'', JObject ?ms)]"
  let ?m = "\<lparr>depends =
            [\<lparr>name = ''a'', versions = ((1::nat, 0::nat, 0::nat), (2::nat, 0::nat, 0::nat))\<rparr>,
             \<lparr>name = ''b'', versions = ((2, 0, 0), (3, 0, 0))\<rparr>],
          test_depends = [],
          meta_depends =
            [\<lparr>dep = \<lparr>name = ''c'', versions = ((1, 0, 0), (2, 0, 0))\<rparr>, cmake_config = []\<rparr>],
          meta_test_depends = []\<rparr>"
  have h: "load sample (JObject ?es) = Inr ?m"
    by code_simp
  note T = no_configuration_pairs [OF h]
  have c1: "\<exists>d. parse_depends_string sample ''c@1.0.0'' = Inr d
          \<and> \<lparr>dep = d, cmake_config = []\<rparr> \<in> set (meta_depends ?m)"
    by (rule T [THEN conjunct2, THEN conjunct2, THEN conjunct1, rule_format,
                of ?ms ?xs "''c@1.0.0''"]) simp
  have c2: "\<exists>s rng. JString ''2.0.0'' = JString s \<and> parse_restricted sample s = Some rng"
    by (rule T [THEN conjunct2, THEN conjunct1, rule_format,
                of "''depends''" ?ms ?xs ?obj "''b''" "JString ''2.0.0''"]) simp
  from h c1 c2 show ?thesis by simp
qed

section \<open>Rejections\<close>

text \<open>
  Claim C7, as stated: whenever the value under a recognized dependency key is not an array,
  the load fails with the rejection that says the key should be an array. This fails when an
  earlier entry fails first: in the document below \<^verbatim>\<open>test_depends\<close> is not an array, and the
  load fails with the user error \<^verbatim>\<open>invalid_version_range_string\<close> raised for an element of
  \<^verbatim>\<open>depends\<close>.
\<close>

theorem non_array_counterexample:
  "\<not> is_array (JString ''x'')
   \<and> load sample
       (JObject
         [(''depends'', JArray [JObject [(''a'', JString ''not-a-version'')]]),
          (''meta_dds'', JObject []),
          (''test_depends'', JString ''x'')])
     = Inl (User_error invalid_version_range_string
             (invalid_range_message ''not-a-version'' ''a''))"
  by code_simp

text \<open>
  Claim C7, amended: when the value under one of the keys \<^verbatim>\<open>depends\<close>, \<^verbatim>\<open>test_depends\<close>,
  \<^verbatim>\<open>meta_dds.depends\<close> and \<^verbatim>\<open>meta_dds.test_depends\<close> is not an array, the load fails; when the
  entries walked before that key are accepted, the failure is the user error
  \<^verbatim>\<open>invalid_pkg_manifest\<close> with the message that the key should be an array of dependencies.
  The witness includes the document \<^verbatim>\<open>{"depends": "not-an-array", "meta_dds": {}}\<close> of the
  claim.
\<close>

theorem non_array_rejected:
  "(key \<in> {''depends'', ''test_depends''} \<and> \<not> is_array v
      \<and> ((key, v) \<in> set es
          \<or> (\<exists>ms. (''meta_dds'', JObject ms) \<in> set es \<and> (key, v) \<in> set ms))
      \<longrightarrow> (\<exists>e. load X (JObject es) = Inl e))
   \<and> (key \<in> {''depends'', ''test_depends''} \<and> \<not> is_array v
      \<and> walk_entries (unhandled_key X) (root_handlers X) pre empty_manifest = Inr r
      \<longrightarrow> load X (JObject (pre @ (key, v) # post))
            = Inl (User_error invalid_pkg_manifest
                    (''`'' @ key @ ''' should be an array of dependencies'')))
   \<and> (key \<in> {''depends'', ''test_depends''} \<and> \<not> is_array v
      \<and> walk_entries (unhandled_key X) (root_handlers X) pre empty_manifest = Inr r
      \<and> walk_entries (unhandled_key X) (meta_handlers X) mpre r = Inr r1
      \<longrightarrow> load X (JObject (pre @ (''meta_dds'', JObject (mpre @ (key, v) # mpost)) # post))
            = Inl (User_error invalid_pkg_manifest
                    (''`meta_dds.'' @ key @ ''' should be an array of dependencies'')))"
proof (intro conjI impI)
  assume h: "key \<in> {''depends'', ''test_depends''} \<and> \<not> is_array v
      \<and> ((key, v) \<in> set es
          \<or> (\<exists>ms. (''meta_dds'', JObject ms) \<in> set es \<and> (key, v) \<in> set ms))"
  from load_fails_or_walks [of X es] show "\<exists>e. load X (JObject es) = Inl e"
  proof
    assume "\<exists>m. load X (JObject es) = Inr m
          \<and> walk_entries (unhandled_key X) (root_handlers X) es empty_manifest = Inr m"
    then obtain m where
      "walk_entries (unhandled_key X) (root_handlers X) es empty_manifest = Inr m" by blast
    from root_entries_arrays [OF this, of key v] h show ?thesis by blast
  qed
next
  assume h: "key \<in> {''depends'', ''test_depends''} \<and> \<not> is_array v
      \<and> walk_entries (unhandled_key X) (root_handlers X) pre empty_manifest = Inr r"
  then have "try_handlers (root_handlers X) key v r
      = Some (Inl (Walk_error (''`'' @ key @ ''' should be an array of dependencies'')))"
    by (auto simp: try_root_handlers)
  from root_reach [OF _ this] h
  show "load X (JObject (pre @ (key, v) # post))
            = Inl (User_error invalid_pkg_manifest
                    (''`'' @ key @ ''' should be an array of dependencies''))"
    by simp
next
  assume h: "key \<in> {''depends'', ''test_depends''} \<and> \<not> is_array v
      \<and> walk_entries (unhandled_key X) (root_handlers X) pre empty_manifest = Inr r
      \<and> walk_entries (unhandled_key X) (meta_handlers X) mpre r = Inr r1"
  then have "try_handlers (meta_handlers X) key v r1
      = Some (Inl (Walk_error (''`meta_dds.'' @ key @ ''' should be an array of dependencies'')))"
    by (auto simp: try_meta_handlers)
  from meta_reach [OF _ _ this] h
  show "load X (JObject (pre @ (''meta_dds'', JObject (mpre @ (key, v) # mpost)) # post))
            = Inl (User_error invalid_pkg_manifest
                    (''`meta_dds.'' @ key @ ''' should be an array of dependencies''))"
    by simp
qed

theorem non_array_rejected_witness:
  "load sample (JObject [(''depends'', JString ''not-an-array''), (''meta_dds'', JObject [])])
     = Inl (User_error invalid_pkg_manifest ''`depends' should be an array of dependencies'')
   \<and> load sample
       (JObject
         [(''depends'', JArray [JString ''a@1.0.0'']),
          (''meta_dds'', JObject [(''test_depends'', JNumber 3)])])
     = Inl (User_error invalid_pkg_manifest
             ''`meta_dds.test_depends' should be an array of dependencies'')"
proof -
  have k1: "''depends'' \<in> {''depends'', ''test_depends''}" by simp
  have k2: "''test_depends'' \<in> {''depends'', ''test_depends''}" by simp
  have a1: "\<not> is_array (JString ''not-an-array'')" by simp
  have a2: "\<not> is_array (JNumber 3)" by simp
  have w0: "walk_entries (unhandled_key sample) (root_handlers sample) [] empty_manifest
              = Inr empty_manifest" by simp
  have w1: "walk_entries (unhandled_key sample) (root_handlers sample)
              [(''depends'', JArray [JString ''a@1.0.0''])] empty_manifest
              = Inr \<lparr>depends = [\<lparr>name = ''a'', versions = ((1, 0, 0), (2, 0, 0))\<rparr>],
                     test_depends = [], meta_depends = [], meta_test_depends = []\<rparr>"
    by code_simp
  have w2: "walk_entries (unhandled_key sample) (meta_handlers sample) []
              \<lparr>depends = [\<lparr>name = ''a'', versions = ((1, 0, 0), (2, 0, 0))\<rparr>],
                     test_depends = [], meta_depends = [], meta_test_depends = []\<rparr>
              = Inr \<lparr>depends = [\<lparr>name = ''a'', versions = ((1, 0, 0), (2, 0, 0))\<rparr>],
                     test_depends = [], meta_depends = [], meta_test_depends = []\<rparr>"
    by simp
  note T = non_array_rejected
  from T [of "''depends''" "JString ''not-an-array''" _ sample "[]" empty_manifest
            "[(''meta_dds'', JObject [])]", THEN conjunct2, THEN conjunct1] k1 a1 w0
  have c1: "load sample (JObject [(''depends'', JString ''not-an-array''), (''meta_dds'', JObject [])])
     = Inl (User_error invalid_pkg_manifest ''`depends' should be an array of dependencies'')"
    by simp
  from T [of "''test_depends''" "JNumber 3" _ sample
            "[(''depends'', JArray [JString ''a@1.0.0''])]" _ "[]" "[]" _ "[]",
          THEN conjunct2, THEN conjunct2] k2 a2 w1 w2
  have c2: "load sample
       (JObject
         [(''depends'', JArray [JString ''a@1.0.0'']),
          (''meta_dds'', JObject [(''test_depends'', JNumber 3)])])
     = Inl (User_error invalid_pkg_manifest
             ''`meta_dds.test_depends' should be an array of dependencies'')"
    by simp
  from c1 c2 show ?thesis by blast
qed

text \<open>
  Claim C5, as stated: an element that is neither a string nor a single-entry object is
  rejected, a multi-entry object in particular. This fails: the object element
  \<^verbatim>\<open>{"a": "1.0.0", "b": "2.0.0"}\<close> is accepted and gives two dependencies.
\<close>

theorem multi_entry_object_counterexample:
  "\<not> is_string (JObject [(''a'', JString ''1.0.0''), (''b'', JString ''2.0.0'')])
   \<and> length [(''a'', JString ''1.0.0''), (''b'', JString ''2.0.0'')] = 2
   \<and> load sample
       (JObject
         [(''depends'', JArray [JObject [(''a'', JString ''1.0.0''), (''b'', JString ''2.0.0'')]]),
          (''meta_dds'', JObject [])])
     = Inr \<lparr>depends =
              [\<lparr>name = ''a'', versions = ((1, 0, 0), (2, 0, 0))\<rparr>,
               \<lparr>name = ''b'', versions = ((2, 0, 0), (3, 0, 0))\<rparr>],
            test_depends = [], meta_depends = [], meta_test_depends = []\<rparr>"
  by code_simp

text \<open>
  Claim C5, amended: an object element is walked entry by entry and is not rejected for the
  number of its entries: when every entry has a string value that parses as a range, both
  element sinks accept the object and push one dependency for each entry. An entry whose
  value is not a string makes the load fail; when everything walked before that entry is
  accepted, the failure is the user error \<^verbatim>\<open>invalid_pkg_manifest\<close> with the message
  \<^verbatim>\<open>Dependency object values should be strings\<close>. The statement says nothing about an
  element that is neither a string nor an object.
\<close>

theorem object_element_entries:
  "(list_all (entry_ok X) ents
      \<longrightarrow> dependency_sink X push kn (JObject ents) ret
            = Inr (ret\<lparr>depends := depends ret @ object_deps X (JObject ents)\<rparr>)
        \<and> meta_dependency_sink X push' kn (JObject ents) ret
            = Inr (ret\<lparr>depends := depends ret @ object_deps X (JObject ents)\<rparr>)
        \<and> length (object_deps X (JObject ents)) = length ents)
   \<and> (\<not> is_string v \<and> key \<in> {''depends'', ''test_depends''}
      \<and> (k, v) \<in> set ents \<and> JObject ents \<in> set xs
      \<and> ((key, JArray xs) \<in> set es
          \<or> (\<exists>ms. (''meta_dds'', JObject ms) \<in> set es \<and> (key, JArray xs) \<in> set ms))
      \<longrightarrow> (\<exists>e. load X (JObject es) = Inl e))
   \<and> (\<not> is_string v
      \<and> walk_entries (unhandled_key X) (root_handlers X) pre empty_manifest = Inr r
      \<and> try_handlers (root_handlers X) key (JArray xs1) r = Some (Inr r2)
      \<and> walk_entries (unhandled_key X) [Key_value (push_depends_obj_kv X)] ents1 r2 = Inr r3
      \<longrightarrow> load X (JObject (pre @ (key, JArray (xs1 @ JObject (ents1 @ (k, v) # ents2) # xs2))
                                 # post))
            = Inl (User_error invalid_pkg_manifest ''Dependency object values should be strings''))
   \<and> (\<not> is_string v
      \<and> walk_entries (unhandled_key X) (root_handlers X) pre empty_manifest = Inr r
      \<and> walk_entries (unhandled_key X) (meta_handlers X) mpre r = Inr r1
      \<and> try_handlers (meta_handlers X) key (JArray xs1) r1 = Some (Inr r2)
      \<and> walk_entries (unhandled_key X) [Key_value (push_depends_obj_kv X)] ents1 r2 = Inr r3
      \<longrightarrow> load X (JObject (pre @ (''meta_dds'',
                JObject (mpre @ (key, JArray (xs1 @ JObject (ents1 @ (k, v) # ents2) # xs2))
                           # mpost)) # post))
            = Inl (User_error invalid_pkg_manifest ''Dependency object values should be strings''))"
proof (intro conjI impI)
  assume ok: "list_all (entry_ok X) ents"
  from sink_object_accepted [OF ok]
  show "dependency_sink X push kn (JObject ents) ret
            = Inr (ret\<lparr>depends := depends ret @ object_deps X (JObject ents)\<rparr>)"
    by (simp add: dependency_sink_def mapping_def)
next
  assume ok: "list_all (entry_ok X) ents"
  from sink_object_accepted [OF ok]
  show "meta_dependency_sink X push' kn (JObject ents) ret
            = Inr (ret\<lparr>depends := depends ret @ object_deps X (JObject ents)\<rparr>)"
    by (simp add: meta_dependency_sink_def mapping_def)
next
  assume ok: "list_all (entry_ok X) ents"
  from entry_deps_length [OF ok]
  show "length (object_deps X (JObject ents)) = length ents" by simp
next
  assume h: "\<not> is_string v \<and> key \<in> {''depends'', ''test_depends''}
      \<and> (k, v) \<in> set ents \<and> JObject ents \<in> set xs
      \<and> ((key, JArray xs) \<in> set es
          \<or> (\<exists>ms. (''meta_dds'', JObject ms) \<in> set es \<and> (key, JArray xs) \<in> set ms))"
  show "\<exists>e. load X (JObject es) = Inl e"
  proof (cases "load X (JObject es)")
    case (Inl e)
    then show ?thesis by blast
  next
    case (Inr m)
    from load_elems_ok [OF Inr, of key xs "JObject ents"] h
    have "elem_ok X (JObject ents)" by blast
    from object_elem_ok_deps [OF this, of k v] h show ?thesis by auto
  qed
next
  assume h: "\<not> is_string v
      \<and> walk_entries (unhandled_key X) (root_handlers X) pre empty_manifest = Inr r
      \<and> try_handlers (root_handlers X) key (JArray xs1) r = Some (Inr r2)
      \<and> walk_entries (unhandled_key X) [Key_value (push_depends_obj_kv X)] ents1 r2 = Inr r3"
  then have arr: "try_handlers (root_handlers X) key (JArray xs1) r = Some (Inr r2)"
    and ents: "walk_entries (unhandled_key X) [Key_value (push_depends_obj_kv X)] ents1 r2 = Inr r3"
    and bad: "\<not> is_string v" by blast+
  let ?x = "JObject (ents1 @ (k, v) # ents2)"
  let ?e = "Walk_error ''Dependency object values should be strings''"
  have "\<And>push kn. dependency_sink X push kn ?x r2 = Inl ?e"
    by (rule sink_bad_value(1) [OF ents bad])
  from root_head_fails [OF root_array_prefix(1) [OF arr], of X ?x r2 "\<lambda>kn. ?e", OF this]
  have "try_handlers (root_handlers X) key (JArray (?x # xs2)) r2 = Some (Inl ?e)" .
  with root_array_prefix(2) [OF arr, of "?x # xs2"]
  have "try_handlers (root_handlers X) key (JArray (xs1 @ ?x # xs2)) r = Some (Inl ?e)" by simp
  from root_reach [OF _ this] h
  show "load X (JObject (pre @ (key, JArray (xs1 @ ?x # xs2)) # post))
          = Inl (User_error invalid_pkg_manifest ''Dependency object values should be strings'')"
    by simp
next
  assume h: "\<not> is_string v
      \<and> walk_entries (unhandled_key X) (root_handlers X) pre empty_manifest = Inr r
      \<and> walk_entries (unhandled_key X) (meta_handlers X) mpre r = Inr r1
      \<and> try_handlers (meta_handlers X) key (JArray xs1) r1 = Some (Inr r2)
      \<and> walk_entries (unhandled_key X) [Key_value (push_depends_obj_kv X)] ents1 r2 = Inr r3"
  then have arr: "try_handlers (meta_handlers X) key (JArray xs1) r1 = Some (Inr r2)"
    and ents: "walk_entries (unhandled_key X) [Key_value (push_depends_obj_kv X)] ents1 r2 = Inr r3"
    and bad: "\<not> is_string v" by blast+
  let ?x = "JObject (ents1 @ (k, v) # ents2)"
  let ?e = "Walk_error ''Dependency object values should be strings''"
  have "\<And>push kn. meta_dependency_sink X push kn ?x r2 = Inl ?e"
    by (rule sink_bad_value(2) [OF ents bad])
  from meta_head_fails [OF meta_array_prefix(1) [OF arr], of X ?x r2 "\<lambda>kn. ?e", OF this]
  have "try_handlers (meta_handlers X) key (JArray (?x # xs2)) r2 = Some (Inl ?e)" .
  with meta_array_prefix(2) [OF arr, of "?x # xs2"]
  have "try_handlers (meta_handlers X) key (JArray (xs1 @ ?x # xs2)) r1 = Some (Inl ?e)" by simp
  from meta_reach [OF _ _ this] h
  show "load X (JObject (pre @ (''meta_dds'',
                JObject (mpre @ (key, JArray (xs1 @ ?x # xs2)) # mpost)) # post))
          = Inl (User_error invalid_pkg_manifest ''Dependency object values should be strings'')"
    by simp
qed

theorem object_element_entries_witness:
  "dependency_sink sample push_test_depends ''test_depends''
     (JObject [(''a'', JString ''1.0.0''), (''b'', JString ''2.0.0'')]) empty_manifest
     = Inr \<lparr>depends =
              [\<lparr>name = ''a'', versions = ((1, 0, 0), (2, 0, 0))\<rparr>,
               \<lparr>name = ''b'', versions = ((2, 0, 0), (3, 0, 0))\<rparr>],
            test_depends = [], meta_depends = [], meta_test_depends = []\<rparr>
   \<and> load sample
       (JObject
         [(''depends'',
             JArray [JString ''a@1.0.0'',
                     JObject [(''b'', JString ''2.0.0''), (''c'', JNumber 5)]]),
          (''meta_dds'', JObject [])])
     = Inl (User_error invalid_pkg_manifest ''Dependency object values should be strings'')
   \<and> load sample
       (JObject
         [(''meta_dds'',
             JObject [(''test_depends'', JArray [JObject [(''c'', JBool True)]])])])
     = Inl (User_error invalid_pkg_manifest ''Dependency object values should be strings'')"
proof -
  let ?a = "\<lparr>name = ''a'', versions = ((1::nat, 0::nat, 0::nat), (2::nat, 0::nat, 0::nat))\<rparr>"
  let ?b = "\<lparr>name = ''b'', versions = ((2::nat, 0::nat, 0::nat), (3::nat, 0::nat, 0::nat))\<rparr>"
  let ?r2 = "\<lparr>depends = [?a], test_depends = [], meta_depends = [], meta_test_depends = []\<rparr>"
  let ?r3 = "\<lparr>depends = [?a, ?b], test_depends = [], meta_depends = [],
              meta_test_depends = []\<rparr>"
  let ?ents = "[(''a'', JString ''1.0.0''), (''b'', JString ''2.0.0'')]"
  have h0: "list_all (entry_ok sample) ?ents" by code_simp
  have h1: "\<not> is_string (JNumber 5)
      \<and> walk_entries (unhandled_key sample) (root_handlers sample) [] empty_manifest
          = Inr empty_manifest
      \<and> try_handlers (root_handlers sample) ''depends'' (JArray [JString ''a@1.0.0''])
          empty_manifest = Some (Inr ?r2)
      \<and> walk_entries (unhandled_key sample) [Key_value (push_depends_obj_kv sample)]
          [(''b'', JString ''2.0.0'')] ?r2 = Inr ?r3"
    by code_simp
  have h2: "\<not> is_string (JBool True)
      \<and> walk_entries (unhandled_key sample) (root_handlers sample) [] empty_manifest
          = Inr empty_manifest
      \<and> walk_entries (unhandled_key sample) (meta_handlers sample) [] empty_manifest
          = Inr empty_manifest
      \<and> try_handlers (meta_handlers sample) ''test_depends'' (JArray [])
          (empty_manifest :: version package_manifest) = Some (Inr empty_manifest)
      \<and> walk_entries (unhandled_key sample) [Key_value (push_depends_obj_kv sample)]
          [] (empty_manifest :: version package_manifest) = Inr empty_manifest"
    by code_simp
  note T = object_element_entries
  from T [where X = sample and ents = ?ents and push = push_test_depends
            and kn = "''test_depends''" and ret = empty_manifest,
          THEN conjunct1, rule_format, OF h0, THEN conjunct1]
  have c0: "dependency_sink sample push_test_depends ''test_depends'' (JObject ?ents)
              empty_manifest = Inr ?r3"
    by (simp add: empty_manifest_def sample_def sample_parse_restricted_def)
  from T [where X = sample and v = "JNumber 5" and k = "''c''" and pre = "[]"
            and r = empty_manifest and key = "''depends''"
            and ?xs1.0 = "[JString ''a@1.0.0'']" and ?r2.0 = ?r2
            and ?ents1.0 = "[(''b'', JString ''2.0.0'')]" and ?r3.0 = ?r3
            and ?ents2.0 = "[]" and ?xs2.0 = "[]" and post = "[(''meta_dds'', JObject [])]",
          THEN conjunct2, THEN conjunct2, THEN conjunct1, rule_format, OF h1]
  have c1: "load sample
       (JObject
         [(''depends'',
             JArray [JString ''a@1.0.0'',
                     JObject [(''b'', JString ''2.0.0''), (''c'', JNumber 5)]]),
          (''meta_dds'', JObject [])])
     = Inl (User_error invalid_pkg_manifest ''Dependency object values should be strings'')"
    by simp
  from T [where X = sample and v = "JBool True" and k = "''c''" and pre = "[]"
            and r = empty_manifest and mpre = "[]" and ?r1.0 = empty_manifest
            and key = "''test_depends''" and ?xs1.0 = "[]" and ?r2.0 = empty_manifest
            and ?ents1.0 = "[]" and ?r3.0 = empty_manifest
            and ?ents2.0 = "[]" and ?xs2.0 = "[]" and mpost = "[]" and post = "[]",
          THEN conjunct2, THEN conjunct2, THEN conjunct2, rule_format, OF h2]
  have c2: "load sample
       (JObject
         [(''meta_dds'',
             JObject [(''test_depends'', JArray [JObject [(''c'', JBool True)]])])])
     = Inl (User_error invalid_pkg_manifest ''Dependency object values should be strings'')"
    by simp
  from c0 c1 c2 show ?thesis by blast
qed




end
